theory Spec2Isabelle
  imports Complex_Main "HOL-Library.Word" "HOL-Library.Sublist"
begin

section \<open>Byte strings and the two kinds of regular expression the exporter compiles\<close>

text \<open>
  Go strings and byte slices are sequences of bytes: \<open>string\<close> (a \<open>char list\<close>).
  A nil byte slice and the empty string have the same bytes; both are \<open>[]\<close>.
\<close>

definition isDigit :: "char \<Rightarrow> bool" where
  "isDigit c = (c \<in> set ''0123456789'')"

text \<open>
  \<open>logRexp = regexp.MustCompile(`\.([0-9]+$)`)\<close> in \<open>parseStatus\<close>: a literal dot, then one
  or more ASCII digits, then the end of the text (\<open>$\<close> without the \<open>m\<close> flag is the end
  of the text only). \<open>logRexp_at s\<close> says that the expression matches when it is started at
  the head of the remaining text \<open>s\<close>; the match then is all of \<open>s\<close>.
\<close>

definition logRexp_at :: "string \<Rightarrow> bool" where
  "logRexp_at s =
     (case s of
        [] \<Rightarrow> False
      | c # ds \<Rightarrow> c = CHR ''.'' \<and> ds \<noteq> [] \<and> list_all isDigit ds)"

text \<open>
  \<open>logRexp.Find(data)\<close>: the text of the leftmost match, \<open>None\<close> for Go's nil (no match).
  The search tries every start position from the left.
\<close>

fun logRexp_Find :: "string \<Rightarrow> string option" where
  "logRexp_Find [] = None"
| "logRexp_Find (c # cs) = (if logRexp_at (c # cs) then Some (c # cs) else logRexp_Find cs)"

text \<open>\<open>len(logNum)\<close> of the source, with \<open>len(nil) = 0\<close>.\<close>

definition len_opt :: "string option \<Rightarrow> nat" where
  "len_opt m = (case m of None \<Rightarrow> 0 | Some b \<Rightarrow> length b)"

text \<open>
  \<open>func parseStatus(data []byte) string\<close>: the switch of the source, case by case.
  \<open>logNum[1:]\<close> is only evaluated under \<open>len(logNum) > 1\<close>, so it cannot panic.
\<close>

definition parseStatus :: "string \<Rightarrow> string" where
  "parseStatus data =
     (let logNum = logRexp_Find data in
      if data = ''Yes'' then ''1''
      else if data = ''No'' then ''0''
      else if len_opt logNum > 1 then drop 1 (the logNum)
      else data)"

section \<open>Classification of a status name\<close>

text \<open>
  \<open>setMetrics\<close> compiles four expressions of one shape, \<open>^com_(.*)$\<close>,
  \<open>^connection_errors_(.*)$\<close>, \<open>^innodb_rows_(.*)$\<close> and \<open>^performance_schema_(.*)$\<close>: a
  literal prefix anchored at the start of the text, then any run of characters up to the
  end of the text. In Go's syntax \<open>.\<close> matches every character except the line feed (no
  \<open>s\<close> flag is set) and \<open>$\<close> is the end of the text (no \<open>m\<close> flag). So the only possible
  match is the whole text, and it exists when the text starts with the prefix and holds no
  line feed after it. \<open>FindStringSubmatch\<close> returns the match and the group, or nil.
\<close>

definition FindStringSubmatch :: "string \<Rightarrow> string \<Rightarrow> string list" where
  "FindStringSubmatch pre s =
     (if take (length pre) s = pre \<and> CHR 0x0A \<notin> set (drop (length pre) s)
      then [s, drop (length pre) s] else [])"

definition comRegex :: string where
  "comRegex = ''com_''"

definition connectionErrorRegex :: string where
  "connectionErrorRegex = ''connection_errors_''"

definition innodbRowRegex :: string where
  "innodbRowRegex = ''innodb_rows_''"

definition performanceSchemaRegex :: string where
  "performanceSchemaRegex = ''performance_schema_''"

datatype family = Commands | ConnectionErrors | InnodbRows | PerformanceSchema | Generic

text \<open>
  The decision of the \<open>switch\<close> in \<open>setMetrics\<close>: which vector (or the generic map) the
  value goes to, and under which label value (or name). The four submatches are computed
  first, then tested in the order of the cases; \<open>command[1]\<close> is read only when the slice
  is not empty, and it then has two elements.
\<close>

definition classify :: "string \<Rightarrow> family \<times> string" where
  "classify name =
     (let command = FindStringSubmatch comRegex name;
          connectionError = FindStringSubmatch connectionErrorRegex name;
          innodbRow = FindStringSubmatch innodbRowRegex name;
          performanceSchemaM = FindStringSubmatch performanceSchemaRegex name
      in if length command > 0 then (Commands, command ! 1)
         else if length connectionError > 0 then (ConnectionErrors, connectionError ! 1)
         else if length innodbRow > 0 then (InnodbRows, innodbRow ! 1)
         else if length performanceSchemaM > 0 then (PerformanceSchema, performanceSchemaM ! 1)
         else (Generic, name))"

text \<open>
  The classifier as the specification words it: the first of the four prefixes that the
  name starts with gives the family, and the label value is the name without that prefix.
\<close>

definition classify_spec :: "string \<Rightarrow> family \<times> string" where
  "classify_spec name =
     (if prefix ''com_'' name then (Commands, drop (length ''com_'') name)
      else if prefix ''connection_errors_'' name
        then (ConnectionErrors, drop (length ''connection_errors_'') name)
      else if prefix ''innodb_rows_'' name
        then (InnodbRows, drop (length ''innodb_rows_'') name)
      else if prefix ''performance_schema_'' name
        then (PerformanceSchema, drop (length ''performance_schema_'') name)
      else (Generic, name))"

section \<open>The exporter and its metric objects\<close>

text \<open>
  The functions of the Go library that the exporter calls on text and numbers are
  parameters of the model: \<open>strings.ToLower\<close>; \<open>strconv.ParseFloat(s, 64)\<close>, with \<open>None\<close> for
  a non-nil error; and the conversion \<open>float64(d) / 1000000000\<close> of a difference of two
  \<open>UnixNano\<close> readings. The type \<open>'f\<close> stands for \<open>float64\<close>; of its operations the exporter
  uses the constants 0 and 1 and the addition in \<open>Inc\<close>, and no law of arithmetic is
  assumed of them.
\<close>

record 'f lib =
  ToLower :: "string \<Rightarrow> string"
  ParseFloat :: "string \<Rightarrow> 'f option"
  secondsOf :: "64 word \<Rightarrow> 'f"

text \<open>
  A metric made by \<open>prometheus.NewUntyped\<close>: its name and its current value. Such objects
  live in a store (\<open>heap\<close>), and a handle is the index of the object in the store, so that
  two handles are the same object exactly when they are equal.
\<close>

record 'f Untyped =
  uname :: string
  uval :: 'f

text \<open>
  \<open>type Exporter struct\<close>. \<open>metrics\<close> is the map from names to handles, kept as a list of
  pairs with \<open>map_of\<close> as the lookup (Go does not fix the order of iteration; no property
  below depends on it). Each of the four \<open>CounterVec\<close>s is kept as the list of its children:
  label value and current value. The mutex orders concurrent calls of \<open>Collect\<close> and has no
  part in a single call.
\<close>

record 'f Exporter =
  dsn :: string
  duration :: 'f
  error :: 'f
  totalScrapes :: 'f
  metrics :: "(string \<times> nat) list"
  heap :: "'f Untyped list"
  commands :: "(string \<times> 'f) list"
  connectionErrors :: "(string \<times> 'f) list"
  innodbRows :: "(string \<times> 'f) list"
  performanceSchema :: "(string \<times> 'f) list"

definition NewMySQLExporter :: "string \<Rightarrow> ('f::zero) Exporter" where
  "NewMySQLExporter d =
     \<lparr>dsn = d, duration = 0, error = 0, totalScrapes = 0, metrics = [], heap = [],
      commands = [], connectionErrors = [], innodbRows = [], performanceSchema = []\<rparr>"

text \<open>
  \<open>vec.With(prometheus.Labels{l: x}).Set(value)\<close>: the child for the label value \<open>x\<close> is
  made on first use and keeps its place afterwards; \<open>Set\<close> stores the value in it.
\<close>

fun With_Set :: "(string \<times> 'f) list \<Rightarrow> string \<Rightarrow> 'f \<Rightarrow> (string \<times> 'f) list" where
  "With_Set [] x v = [(x, v)]"
| "With_Set ((k, w) # ps) x v = (if k = x then (k, v) # ps else (k, w) # With_Set ps x v)"

text \<open>
  \<open>func (e *Exporter) setGenericMetric(name string, value float64)\<close>. When the name has no
  entry, a new object with value 0 is allocated at the end of the store and entered under
  the name. Then the entry is looked up again and the value stored in its object; the
  lookup cannot miss (lemma \<open>setGenericMetric_lookup\<close>), so the last branch is never taken.
\<close>

definition setGenericMetric :: "('f::zero) Exporter \<Rightarrow> string \<Rightarrow> 'f \<Rightarrow> 'f Exporter" where
  "setGenericMetric e name v =
     (let e1 = (case map_of (metrics e) name of
                  None \<Rightarrow> e\<lparr>metrics := metrics e @ [(name, length (heap e))],
                             heap := heap e @ [\<lparr>uname = name, uval = 0\<rparr>]\<rparr>
                | Some h \<Rightarrow> e)
      in case map_of (metrics e1) name of
           Some h \<Rightarrow> e1\<lparr>heap := (heap e1)[h := (heap e1 ! h)\<lparr>uval := v\<rparr>]\<rparr>
         | None \<Rightarrow> e1)"

text \<open>
  The body of the loop of \<open>setMetrics\<close> for one row \<open>[]string{row[0], row[1]}\<close> (every row on
  the channel is made with \<open>make([]string, 2)\<close>): the name is lowercased, the value is
  parsed, a row whose value does not parse is skipped (\<open>continue\<close>), and the value is
  stored where \<open>classify\<close> says.
\<close>

definition setMetrics_row :: "('f::zero) lib \<Rightarrow> 'f Exporter \<Rightarrow> string \<times> string \<Rightarrow> 'f Exporter" where
  "setMetrics_row L e row =
     (let name = ToLower L (fst row) in
      case ParseFloat L (snd row) of
        None \<Rightarrow> e
      | Some v \<Rightarrow>
          (case classify name of
             (Commands, x) \<Rightarrow> e\<lparr>commands := With_Set (commands e) x v\<rparr>
           | (ConnectionErrors, x) \<Rightarrow> e\<lparr>connectionErrors := With_Set (connectionErrors e) x v\<rparr>
           | (InnodbRows, x) \<Rightarrow> e\<lparr>innodbRows := With_Set (innodbRows e) x v\<rparr>
           | (PerformanceSchema, x) \<Rightarrow> e\<lparr>performanceSchema := With_Set (performanceSchema e) x v\<rparr>
           | (Generic, n) \<Rightarrow> setGenericMetric e n v))"

text \<open>\<open>func (e *Exporter) setMetrics(scrapes <-chan []string)\<close>: the rows in channel order.\<close>

definition setMetrics :: "('f::zero) lib \<Rightarrow> 'f Exporter \<Rightarrow> (string \<times> string) list \<Rightarrow> 'f Exporter" where
  "setMetrics L e scrapes = foldl (setMetrics_row L) e scrapes"

text \<open>\<open>func (e *Exporter) collectMetrics\<close>: every object of the map is sent out.\<close>

definition collectMetrics :: "'f Exporter \<Rightarrow> 'f Untyped list" where
  "collectMetrics e = map (\<lambda>(n, h). heap e ! h) (metrics e)"

section \<open>One scrape against the database\<close>

text \<open>
  What the database and the clock answer during one call of \<open>scrape\<close>. \<open>now0\<close> is the
  reading of \<open>time.Now().UnixNano()\<close> at the start and \<open>now1\<close> the reading at the exit that
  sets the duration (each path reads the clock at most once more). \<open>sqlOpen\<close> tells whether
  \<open>sql.Open\<close> returned no error. \<open>statusQuery\<close> is \<open>None\<close> when
  \<open>db.Query("SHOW GLOBAL STATUS")\<close> fails, else the rows in order, each \<open>None\<close> when
  \<open>rows.Scan\<close> fails on it and else its key and value. \<open>slaveQuery\<close> is \<open>None\<close> when the
  second query fails; else \<open>slaveColumns\<close> is the answer of \<open>rows.Columns()\<close> and \<open>slaveRows\<close>
  the rows, each \<open>None\<close> for a driver error in \<open>Scan\<close> and else its column values (the bytes
  of a \<open>sql.RawBytes\<close>, empty for NULL). A result set is a finite list: \<open>rows.Next()\<close>
  returns false after the last row.
\<close>

record slave =
  slaveColumns :: "string list option"
  slaveRows :: "string list option list"

record env =
  now0 :: "64 word"
  now1 :: "64 word"
  sqlOpen :: bool
  statusQuery :: "(string \<times> string) option list option"
  slaveQuery :: "slave option"

text \<open>
  The first loop of \<open>scrape\<close>: every scanned row is sent on the channel; a failing \<open>Scan\<close>
  logs and returns. The result is the rows sent and whether the loop ran to its end.
\<close>

fun scanStatus :: "(string \<times> string) option list \<Rightarrow> (string \<times> string) list \<times> bool" where
  "scanStatus [] = ([], True)"
| "scanStatus (None # rs) = ([], False)"
| "scanStatus (Some kv # rs) = (case scanStatus rs of (sent, fin) \<Rightarrow> (kv # sent, fin))"

text \<open>
  The second loop: \<open>rows.Scan(scanArgs...)\<close> writes the row into the \<open>n\<close> elements of
  \<open>slaveData\<close>. \<open>database/sql\<close> refuses a row whose number of columns is not the number of
  destinations. The result is \<open>slaveData\<close> after the loop, \<open>None\<close> when a \<open>Scan\<close> failed.
\<close>

fun scanSlave :: "nat \<Rightarrow> string list \<Rightarrow> string list option list \<Rightarrow> string list option" where
  "scanSlave n slaveData [] = Some slaveData"
| "scanSlave n slaveData (None # rs) = None"
| "scanSlave n slaveData (Some vals # rs) =
     (if length vals \<noteq> n then None else scanSlave n vals rs)"

text \<open>
  The three statements at the error exits that set the outcome:
  \<open>e.error.Set(1); e.duration.Set(float64(time.Now().UnixNano()-now) / 1000000000)\<close>.
  The subtraction is that of \<open>int64\<close>.
\<close>

definition setFailed :: "('f::one) lib \<Rightarrow> 'f Exporter \<Rightarrow> env \<Rightarrow> 'f Exporter" where
  "setFailed L e en = e\<lparr>error := 1, duration := secondsOf L (now1 en - now0 en)\<rparr>"

text \<open>
  \<open>func (e *Exporter) scrape(scrapes chan<- []string)\<close>: the rows it sends on the channel
  before the deferred \<open>close\<close>, and the exporter after it. \<open>slaveData\<close> starts as \<open>n\<close> nil
  slices.
\<close>

definition scrape ::
  "('f::{zero,one,plus}) lib \<Rightarrow> 'f Exporter \<Rightarrow> env \<Rightarrow> (string \<times> string) list \<times> 'f Exporter" where
  "scrape L e0 en =
     (let e = e0\<lparr>totalScrapes := totalScrapes e0 + 1\<rparr> in
      if \<not> sqlOpen en then ([], setFailed L e en)
      else case statusQuery en of
        None \<Rightarrow> ([], setFailed L e en)
      | Some rs \<Rightarrow>
         (case scanStatus rs of
            (sent, False) \<Rightarrow> (sent, e)
          | (sent, True) \<Rightarrow>
             (case slaveQuery en of
                None \<Rightarrow> (sent, setFailed L e en)
              | Some sl \<Rightarrow>
                 (case slaveColumns sl of
                    None \<Rightarrow> (sent, setFailed L e en)
                  | Some slaveCols \<Rightarrow>
                     (case scanSlave (length slaveCols) (replicate (length slaveCols) [])
                             (slaveRows sl) of
                        None \<Rightarrow> (sent, setFailed L e en)
                      | Some slaveData \<Rightarrow>
                         (sent @ zip slaveCols (map parseStatus slaveData),
                          e\<lparr>error := 0, duration := secondsOf L (now1 en - now0 en)\<rparr>))))))"

text \<open>
  \<open>func (e *Exporter) Collect(ch chan<- prometheus.Metric)\<close> for one caller (the name
  \<open>Collect\<close> alone is the set comprehension of HOL). The goroutine
  running \<open>scrape\<close> writes only the three process metrics, \<open>setMetrics\<close> writes only the
  map, the store and the vectors, and \<open>setMetrics\<close> returns only after the channel is
  closed, which happens when \<open>scrape\<close> returns. The state in which the metrics are sent
  out is therefore the one after both; the result is that state and what \<open>collectMetrics\<close>
  sends from it.
\<close>

definition Exporter_Collect ::
  "('f::{zero,one,plus}) lib \<Rightarrow> 'f Exporter \<Rightarrow> env \<Rightarrow> 'f Exporter \<times> 'f Untyped list" where
  "Exporter_Collect L e en =
     (case scrape L e en of
        (scrapes, e1) \<Rightarrow> (let e2 = setMetrics L e1 scrapes in (e2, collectMetrics e2)))"

text \<open>Several calls of \<open>Collect\<close>, one after the other, each with its own answers.\<close>

definition Exporter_Collects ::
  "('f::{zero,one,plus}) lib \<Rightarrow> 'f Exporter \<Rightarrow> env list \<Rightarrow> 'f Exporter" where
  "Exporter_Collects L e ens = foldl (\<lambda>s en. fst (Exporter_Collect L s en)) e ens"

text \<open>
  The states the exporter can be in: every name has one entry, no two names share an
  object, and every handle points into the store. \<open>NewMySQLExporter\<close> gives such a state
  and every operation keeps it (lemmas \<open>wfE_New\<close>, \<open>wfE_Exporter_Collect\<close>).
\<close>

definition wfE :: "'f Exporter \<Rightarrow> bool" where
  "wfE e = (distinct (map fst (metrics e)) \<and> distinct (map snd (metrics e))
           \<and> list_all (\<lambda>h. h < length (heap e)) (map snd (metrics e)))"

section \<open>An instance of the library functions for evaluation\<close>

text \<open>
  To evaluate the model at concrete rows the three library functions need values. This
  instance works on ASCII text: \<open>ToLower\<close> maps the letters A to Z to a to z; \<open>ParseFloat\<close>
  accepts a non-empty string of decimal digits with its numeric value and rejects every
  other string; \<open>secondsOf\<close> divides by \<open>10^9\<close>. It is used only at inputs where Go's
  functions give the same answers: ASCII names, digit strings, the empty string and words
  such as \<open>Yes\<close>.
\<close>

definition asciiLower :: "char \<Rightarrow> char" where
  "asciiLower c =
     (case map_of (zip ''ABCDEFGHIJKLMNOPQRSTUVWXYZ'' ''abcdefghijklmnopqrstuvwxyz'') c of
        Some l \<Rightarrow> l
      | None \<Rightarrow> c)"

definition digitValue :: "char \<Rightarrow> nat" where
  "digitValue c =
     (case map_of (zip ''0123456789'' [0, 1, 2, 3, 4, 5, 6, 7, 8, 9]) c of
        Some n \<Rightarrow> n
      | None \<Rightarrow> 0)"

definition decimalOf :: "string \<Rightarrow> nat" where
  "decimalOf s = foldl (\<lambda>a c. 10 * a + digitValue c) 0 s"

definition sampleLib :: "real lib" where
  "sampleLib =
     \<lparr>ToLower = map asciiLower,
      ParseFloat = (\<lambda>s. if s \<noteq> [] \<and> list_all isDigit s then Some (real (decimalOf s)) else None),
      secondsOf = (\<lambda>d. real_of_int (sint d) / 1000000000)\<rparr>"

text \<open>
  Sample answers of the database. A server that is not a replica answers
  \<open>SHOW SLAVE STATUS\<close> with the column names and no row. \<open>sql.Open\<close> does not connect, so
  an unreachable server shows as a failing first query.
\<close>

definition notReplica :: slave where
  "notReplica = \<lparr>slaveColumns = Some [''Slave_IO_State'', ''Master_Host''], slaveRows = []\<rparr>"

definition env_foo :: env where
  "env_foo = \<lparr>now0 = 100, now1 = 350, sqlOpen = True,
     statusQuery = Some [Some (''Foo_bar'', ''1'')], slaveQuery = Some notReplica\<rparr>"

definition env_uptime :: env where
  "env_uptime = \<lparr>now0 = 500, now1 = 900, sqlOpen = True,
     statusQuery = Some [Some (''Uptime'', ''7'')], slaveQuery = Some notReplica\<rparr>"

definition env_unreachable :: env where
  "env_unreachable = \<lparr>now0 = 100, now1 = 350, sqlOpen = True,
     statusQuery = None, slaveQuery = None\<rparr>"

definition env_bad_dsn :: env where
  "env_bad_dsn = \<lparr>now0 = 100, now1 = 350, sqlOpen = False,
     statusQuery = None, slaveQuery = None\<rparr>"

definition env_scan_error :: env where
  "env_scan_error = \<lparr>now0 = 100, now1 = 350, sqlOpen = True,
     statusQuery = Some [Some (''Uptime'', ''7''), None, Some (''Questions'', ''3'')],
     slaveQuery = Some notReplica\<rparr>"

definition env_yes :: env where
  "env_yes = \<lparr>now0 = 100, now1 = 350, sqlOpen = True,
     statusQuery = Some [Some (''Flag'', ''Yes'')], slaveQuery = Some notReplica\<rparr>"

section \<open>parseStatus\<close>

lemma isDigit_dot: "\<not> isDigit CHR ''.''"
  by (simp add: isDigit_def)

lemma logRexp_Find_suffix:
  assumes "d \<noteq> []" and "list_all isDigit d"
  shows "logRexp_Find (p @ CHR ''.'' # d) = Some (CHR ''.'' # d)"
proof (induction p)
  case Nil
  from assms show ?case by (simp add: logRexp_at_def)
next
  case (Cons c p)
  have "\<not> logRexp_at (c # p @ CHR ''.'' # d)"
    using isDigit_dot by (auto simp: logRexp_at_def)
  with Cons show ?case by simp
qed

lemma logRexp_Find_Some:
  "logRexp_Find s = Some m \<Longrightarrow> \<exists>p. s = p @ m \<and> logRexp_at m"
proof (induction s)
  case Nil
  then show ?case by simp
next
  case (Cons c cs)
  show ?case
  proof (cases "logRexp_at (c # cs)")
    case True
    with Cons.prems have "m = c # cs" by simp
    with True show ?thesis by auto
  next
    case False
    with Cons.prems have "logRexp_Find cs = Some m" by simp
    from Cons.IH [OF this] obtain p where "cs = p @ m" and "logRexp_at m" by blast
    then have "c # cs = (c # p) @ m \<and> logRexp_at m" by simp
    then show ?thesis by blast
  qed
qed

lemma logRexp_at_shape:
  "logRexp_at m \<Longrightarrow> \<exists>d. m = CHR ''.'' # d \<and> d \<noteq> [] \<and> list_all isDigit d"
  by (cases m) (auto simp: logRexp_at_def)

lemma parseStatus_digits:
  assumes "d \<noteq> []" and "list_all isDigit d"
  shows "parseStatus (p @ ''.'' @ d) = d"
proof -
  have l: "last (p @ ''.'' @ d) = last d" using assms by simp
  have "isDigit (last d)" using assms by (simp add: list_all_iff)
  then have "last d \<noteq> CHR ''s''" and "last d \<noteq> CHR ''o''"
    by (auto simp: isDigit_def)
  with l have "last (p @ ''.'' @ d) \<noteq> last ''Yes''"
    and "last (p @ ''.'' @ d) \<noteq> last ''No''"
    by simp_all
  then have "p @ ''.'' @ d \<noteq> ''Yes''" and "p @ ''.'' @ d \<noteq> ''No''"
    by metis+
  moreover have "logRexp_Find (p @ ''.'' @ d) = Some (CHR ''.'' # d)"
    using logRexp_Find_suffix [OF assms] by simp
  moreover have "length d > 0" using assms by simp
  ultimately show ?thesis
    by (simp add: parseStatus_def len_opt_def)
qed

lemma parseStatus_other:
  assumes "s \<noteq> ''Yes''" and "s \<noteq> ''No''"
    and "\<not> (\<exists>p d. s = p @ ''.'' @ d \<and> d \<noteq> [] \<and> list_all isDigit d)"
  shows "parseStatus s = s"
proof (cases "logRexp_Find s")
  case None
  with assms show ?thesis by (simp add: parseStatus_def len_opt_def)
next
  case (Some m)
  from logRexp_Find_Some [OF Some] obtain p where "s = p @ m" and "logRexp_at m" by blast
  with logRexp_at_shape obtain d where "s = p @ ''.'' @ d" "d \<noteq> []" "list_all isDigit d"
    by fastforce
  with assms(3) show ?thesis by blast
qed

text \<open>
  C1. \<open>parseStatus\<close> is a total function from byte strings to strings (it has no error
  result and no partial operation). \<open>Yes\<close> gives \<open>1\<close>; \<open>No\<close> gives \<open>0\<close>; an input that ends
  in a dot followed by one or more digits gives exactly the digits after that last dot;
  every other input is returned unchanged. The first two rules cannot overlap with the
  third (neither word ends in a digit), so the priority order never decides.
\<close>

theorem parseStatus_rules:
  "parseStatus ''Yes'' = ''1''
   \<and> parseStatus ''No'' = ''0''
   \<and> (\<forall>p d. d \<noteq> [] \<and> list_all isDigit d \<longrightarrow> parseStatus (p @ ''.'' @ d) = d)
   \<and> (\<forall>s. s \<noteq> ''Yes'' \<and> s \<noteq> ''No''
          \<and> \<not> (\<exists>p d. s = p @ ''.'' @ d \<and> d \<noteq> [] \<and> list_all isDigit d)
        \<longrightarrow> parseStatus s = s)"
proof -
  have "parseStatus ''Yes'' = ''1''" by (simp add: parseStatus_def)
  moreover have "parseStatus ''No'' = ''0''" by (simp add: parseStatus_def)
  ultimately show ?thesis
    using parseStatus_digits parseStatus_other by blast
qed

theorem parseStatus_rules_witness:
  "parseStatus ''1234.567'' = ''567''
   \<and> parseStatus ''master-bin.000123'' = ''000123''
   \<and> parseStatus ''some text'' = ''some text''
   \<and> parseStatus '''' = ''''"
proof -
  note digits =
    parseStatus_rules [THEN conjunct2, THEN conjunct2, THEN conjunct1, rule_format]
  note other =
    parseStatus_rules [THEN conjunct2, THEN conjunct2, THEN conjunct2, rule_format]
  have a: "parseStatus (''1234'' @ ''.'' @ ''567'') = ''567''"
    by (rule digits) (simp add: isDigit_def)
  have b: "parseStatus (''master-bin'' @ ''.'' @ ''000123'') = ''000123''"
    by (rule digits) (simp add: isDigit_def)
  have nodot: "\<not> (\<exists>p d. s = p @ ''.'' @ d \<and> d \<noteq> [] \<and> list_all isDigit d)"
    if "CHR ''.'' \<notin> set s" for s
    using that by auto
  have c: "parseStatus ''some text'' = ''some text''"
  proof (rule other, intro conjI)
    show "\<not> (\<exists>p d. ''some text'' = p @ ''.'' @ d \<and> d \<noteq> [] \<and> list_all isDigit d)"
      by (rule nodot) simp
  qed simp_all
  have d: "parseStatus '''' = ''''"
  proof (rule other, intro conjI)
    show "\<not> (\<exists>p d. '''' = p @ ''.'' @ d \<and> d \<noteq> [] \<and> list_all isDigit d)"
      by (rule nodot) simp
  qed simp_all
  from a b c d show ?thesis by simp
qed

section \<open>Classification\<close>

lemma take_eq_prefix: "take (length pre) s = pre \<longleftrightarrow> prefix pre s"
proof
  assume "take (length pre) s = pre"
  then show "prefix pre s" by (metis take_is_prefix)
next
  assume "prefix pre s"
  then show "take (length pre) s = pre" by (auto simp: prefix_def)
qed

lemma FindStringSubmatch_match:
  "FindStringSubmatch pre s \<noteq> []
     \<longleftrightarrow> prefix pre s \<and> CHR 0x0A \<notin> set (drop (length pre) s)"
  by (simp add: FindStringSubmatch_def take_eq_prefix)

lemma FindStringSubmatch_group:
  "FindStringSubmatch pre s \<noteq> [] \<Longrightarrow> FindStringSubmatch pre s ! 1 = drop (length pre) s"
  by (simp add: FindStringSubmatch_def split: if_splits)

lemma no_newline_drop: "CHR 0x0A \<notin> set s \<Longrightarrow> CHR 0x0A \<notin> set (drop n s)"
  by (meson in_set_dropD)

lemma classify_eq_spec:
  assumes "CHR 0x0A \<notin> set name"
  shows "classify name = classify_spec name"
proof -
  have m: "FindStringSubmatch pre name \<noteq> [] \<longleftrightarrow> prefix pre name" for pre
    using assms by (simp add: FindStringSubmatch_match no_newline_drop)
  have g: "prefix pre name \<Longrightarrow> FindStringSubmatch pre name ! 1 = drop (length pre) name" for pre
    using m FindStringSubmatch_group by blast
  show ?thesis
    unfolding classify_def classify_spec_def Let_def
      comRegex_def connectionErrorRegex_def innodbRowRegex_def performanceSchemaRegex_def
    using g [of "''com_''"] g [of "''connection_errors_''"] g [of "''innodb_rows_''"]
      g [of "''performance_schema_''"]
    by (simp add: m)
qed

lemma FindStringSubmatch_newline:
  assumes "CHR 0x0A \<in> set name" and "CHR 0x0A \<notin> set pre"
  shows "FindStringSubmatch pre name = []"
proof (rule ccontr)
  assume "FindStringSubmatch pre name \<noteq> []"
  then have p: "prefix pre name" and d: "CHR 0x0A \<notin> set (drop (length pre) name)"
    by (simp_all add: FindStringSubmatch_match)
  from p have "name = pre @ drop (length pre) name"
    by (auto simp: prefix_def)
  then have "set name = set pre \<union> set (drop (length pre) name)"
    by (metis set_append)
  with assms d show False by simp
qed

lemma classify_newline:
  assumes "CHR 0x0A \<in> set name"
  shows "classify name = (Generic, name)"
  unfolding classify_def Let_def
    comRegex_def connectionErrorRegex_def innodbRowRegex_def performanceSchemaRegex_def
  by (simp add: FindStringSubmatch_newline [OF assms])

lemma prefix_take3: "prefix pre name \<Longrightarrow> 3 \<le> length pre \<Longrightarrow> take 3 name = take 3 pre"
  by (auto simp: prefix_def)

lemma prefixes_disjoint:
  "length (filter (\<lambda>pre. prefix pre name)
      [''com_'', ''connection_errors_'', ''innodb_rows_'', ''performance_schema_'']) \<le> 1"
proof -
  have a: "prefix ''com_'' name \<Longrightarrow> take 3 name = ''com''"
    using prefix_take3 [of "''com_''" name] by simp
  have b: "prefix ''connection_errors_'' name \<Longrightarrow> take 3 name = ''con''"
    using prefix_take3 [of "''connection_errors_''" name] by simp
  have c: "prefix ''innodb_rows_'' name \<Longrightarrow> take 3 name = ''inn''"
    using prefix_take3 [of "''innodb_rows_''" name] by simp
  have d: "prefix ''performance_schema_'' name \<Longrightarrow> take 3 name = ''per''"
    using prefix_take3 [of "''performance_schema_''" name] by simp
  show ?thesis
    using a b c d by (cases "take 3 name = ''com''") auto
qed

lemma classify_Generic_name: "classify name = (Generic, x) \<Longrightarrow> x = name"
  by (auto simp: classify_def Let_def split: if_splits)

text \<open>
  C2, as amended. For a name without a line feed the classifier of the code is the
  classifier of the specification: the four prefixes in order, the first one the name
  starts with gives the family, the label value is the name without the prefix (the empty
  string when the name is the prefix), and a name with none of the prefixes goes to the
  generic family under its full name. A name that holds a line feed matches none of the
  four expressions and is generic under its full name, whatever it starts with. A name
  starts with at most one of the four prefixes, and at most one expression matches it.
\<close>

theorem classify_prefix_rules:
  "(CHR 0x0A \<notin> set name \<longrightarrow> classify name = classify_spec name)
   \<and> (CHR 0x0A \<in> set name \<longrightarrow> classify name = (Generic, name))
   \<and> length (filter (\<lambda>pre. prefix pre name)
        [''com_'', ''connection_errors_'', ''innodb_rows_'', ''performance_schema_'']) \<le> 1
   \<and> length (filter (\<lambda>pre. length (FindStringSubmatch pre name) > 0)
        [comRegex, connectionErrorRegex, innodbRowRegex, performanceSchemaRegex]) \<le> 1"
proof -
  have "length (filter (\<lambda>pre. length (FindStringSubmatch pre name) > 0)
        [comRegex, connectionErrorRegex, innodbRowRegex, performanceSchemaRegex])
      \<le> length (filter (\<lambda>pre. prefix pre name)
        [''com_'', ''connection_errors_'', ''innodb_rows_'', ''performance_schema_''])"
    unfolding comRegex_def connectionErrorRegex_def innodbRowRegex_def performanceSchemaRegex_def
    by (simp add: FindStringSubmatch_match)
  then have "length (filter (\<lambda>pre. length (FindStringSubmatch pre name) > 0)
        [comRegex, connectionErrorRegex, innodbRowRegex, performanceSchemaRegex]) \<le> 1"
    using prefixes_disjoint [of name] by linarith
  with prefixes_disjoint [of name] classify_eq_spec [of name] classify_newline [of name]
  show ?thesis by blast
qed

theorem classify_prefix_rules_witness:
  "classify ''com_select'' = (Commands, ''select'')
   \<and> classify ''innodb_rows_deleted'' = (InnodbRows, ''deleted'')
   \<and> classify ''connection_errors_accept'' = (ConnectionErrors, ''accept'')
   \<and> classify ''performance_schema_locker_lost'' = (PerformanceSchema, ''locker_lost'')
   \<and> classify ''threads_connected'' = (Generic, ''threads_connected'')
   \<and> classify ''com_'' = (Commands, '''')
   \<and> classify [CHR ''c'', CHR ''o'', CHR ''m'', CHR ''_'', CHR 0x0A]
       = (Generic, [CHR ''c'', CHR ''o'', CHR ''m'', CHR ''_'', CHR 0x0A])"
proof -
  note eq = classify_prefix_rules [THEN conjunct1, rule_format]
  note nl = classify_prefix_rules [THEN conjunct2, THEN conjunct1, rule_format]
  have "classify ''com_select'' = (Commands, ''select'')"
    by (subst eq) (simp_all add: classify_spec_def)
  moreover have "classify ''innodb_rows_deleted'' = (InnodbRows, ''deleted'')"
    by (subst eq) (simp_all add: classify_spec_def)
  moreover have "classify ''connection_errors_accept'' = (ConnectionErrors, ''accept'')"
    by (subst eq) (simp_all add: classify_spec_def)
  moreover have "classify ''performance_schema_locker_lost'' = (PerformanceSchema, ''locker_lost'')"
    by (subst eq) (simp_all add: classify_spec_def)
  moreover have "classify ''threads_connected'' = (Generic, ''threads_connected'')"
    by (subst eq) (simp_all add: classify_spec_def)
  moreover have "classify ''com_'' = (Commands, '''')"
    by (subst eq) (simp_all add: classify_spec_def)
  moreover have "classify [CHR ''c'', CHR ''o'', CHR ''m'', CHR ''_'', CHR 0x0A]
       = (Generic, [CHR ''c'', CHR ''o'', CHR ''m'', CHR ''_'', CHR 0x0A])"
    by (rule nl) simp
  ultimately show ?thesis by simp
qed

text \<open>
  C2 as stated fails at the name \<open>com_\<close> followed by a line feed: it starts with the
  prefix \<open>com_\<close>, so the specification's classifier files it under the commands family
  with the line feed as label value, but \<open>.\<close> does not match a line feed, the expression
  \<open>^com_(.*)$\<close> finds nothing, and the code takes the default case.
\<close>

theorem classify_newline_counterexample:
  "prefix ''com_'' [CHR ''c'', CHR ''o'', CHR ''m'', CHR ''_'', CHR 0x0A]
   \<and> classify [CHR ''c'', CHR ''o'', CHR ''m'', CHR ''_'', CHR 0x0A]
       = (Generic, [CHR ''c'', CHR ''o'', CHR ''m'', CHR ''_'', CHR 0x0A])
   \<and> classify_spec [CHR ''c'', CHR ''o'', CHR ''m'', CHR ''_'', CHR 0x0A]
       = (Commands, [CHR 0x0A])"
  by (simp add: classify_def classify_spec_def FindStringSubmatch_def comRegex_def
      connectionErrorRegex_def innodbRowRegex_def performanceSchemaRegex_def)

section \<open>The registry of generic metrics\<close>

lemma setGenericMetric_absent:
  assumes "map_of (metrics e) name = None"
  shows "setGenericMetric e name v =
           e\<lparr>metrics := metrics e @ [(name, length (heap e))],
             heap := heap e @ [\<lparr>uname = name, uval = v\<rparr>]\<rparr>"
  using assms by (simp add: setGenericMetric_def map_add_def)

lemma setGenericMetric_present:
  assumes "map_of (metrics e) name = Some h"
  shows "setGenericMetric e name v = e\<lparr>heap := (heap e)[h := (heap e ! h)\<lparr>uval := v\<rparr>]\<rparr>"
  using assms by (simp add: setGenericMetric_def)

lemma setGenericMetric_lookup: "map_of (metrics (setGenericMetric e name v)) name \<noteq> None"
  by (cases "map_of (metrics e) name")
    (simp_all add: setGenericMetric_absent setGenericMetric_present)

lemma handle_in_store:
  assumes "wfE e" and "map_of (metrics e) n = Some h"
  shows "h < length (heap e)"
proof -
  from assms(2) have "(n, h) \<in> set (metrics e)" by (rule map_of_SomeD)
  with assms(1) show ?thesis by (fastforce simp: wfE_def list_all_iff)
qed

lemma handles_differ:
  assumes "wfE e" and "map_of (metrics e) n = Some h" and "map_of (metrics e) n' = Some h'"
    and "n \<noteq> n'"
  shows "h \<noteq> h'"
proof
  assume "h = h'"
  from assms(2,3) have a: "(n, h) \<in> set (metrics e)" and b: "(n', h') \<in> set (metrics e)"
    by (auto dest: map_of_SomeD)
  from assms(1) have i: "inj_on snd (set (metrics e))"
    by (simp add: wfE_def distinct_map)
  from \<open>h = h'\<close> have "snd (n, h) = snd (n', h')" by simp
  from inj_onD [OF i this a b] assms(4) show False by simp
qed

lemma wfE_New: "wfE (NewMySQLExporter d)"
  by (simp add: wfE_def NewMySQLExporter_def)

lemma wfE_setGenericMetric:
  assumes "wfE e"
  shows "wfE (setGenericMetric e name v)"
proof (cases "map_of (metrics e) name")
  case None
  then have "name \<notin> fst ` set (metrics e)" by (simp add: map_of_eq_None_iff)
  moreover have "length (heap e) \<notin> snd ` set (metrics e)"
    using assms by (auto simp: wfE_def list_all_iff)
  moreover have "list_all (\<lambda>h. h < Suc (length (heap e))) (map snd (metrics e))"
    using assms by (auto simp: wfE_def list_all_iff)
  ultimately show ?thesis
    using assms by (simp add: setGenericMetric_absent [OF None] wfE_def)
next
  case (Some h)
  with assms show ?thesis by (simp add: setGenericMetric_present wfE_def)
qed

lemma setGenericMetric_keeps_handle:
  assumes "map_of (metrics e) n = Some h"
  shows "map_of (metrics (setGenericMetric e name v)) n = Some h"
proof (cases "map_of (metrics e) name")
  case None
  with assms show ?thesis by (simp add: setGenericMetric_absent map_add_def)
next
  case (Some h')
  with assms show ?thesis by (simp add: setGenericMetric_present)
qed

lemma setGenericMetric_other_lookup:
  assumes "n \<noteq> name"
  shows "map_of (metrics (setGenericMetric e name v)) n = map_of (metrics e) n"
proof (cases "map_of (metrics e) name")
  case None
  with assms show ?thesis
    by (simp add: setGenericMetric_absent map_add_def split: option.splits)
next
  case (Some h')
  then show ?thesis by (simp add: setGenericMetric_present)
qed

lemma setGenericMetric_other_object:
  assumes "wfE e" and "n \<noteq> name" and "map_of (metrics e) n = Some h"
  shows "heap (setGenericMetric e name v) ! h = heap e ! h"
proof (cases "map_of (metrics e) name")
  case None
  from handle_in_store [OF assms(1,3)] show ?thesis
    by (simp add: setGenericMetric_absent [OF None] nth_append)
next
  case (Some h')
  from handles_differ [OF assms(1) assms(3) Some assms(2)] show ?thesis
    by (simp add: setGenericMetric_present [OF Some])
qed

lemma setGenericMetric_stores:
  assumes "wfE e" and "map_of (metrics (setGenericMetric e name v)) name = Some h"
  shows "uval (heap (setGenericMetric e name v) ! h) = v
         \<and> h < length (heap (setGenericMetric e name v))"
proof (cases "map_of (metrics e) name")
  case None
  with assms(2) have "h = length (heap e)"
    by (simp add: setGenericMetric_absent map_add_def)
  then show ?thesis by (simp add: setGenericMetric_absent [OF None])
next
  case (Some h')
  with assms(2) have "h = h'" by (simp add: setGenericMetric_present)
  moreover from handle_in_store [OF assms(1) Some] have "h' < length (heap e)" .
  ultimately show ?thesis by (simp add: setGenericMetric_present [OF Some])
qed

lemma wfE_cong: "metrics e' = metrics e \<Longrightarrow> heap e' = heap e \<Longrightarrow> wfE e' = wfE e"
  by (simp add: wfE_def)

lemma setGenericMetric_fields:
  "commands (setGenericMetric e name v) = commands e"
  "connectionErrors (setGenericMetric e name v) = connectionErrors e"
  "innodbRows (setGenericMetric e name v) = innodbRows e"
  "performanceSchema (setGenericMetric e name v) = performanceSchema e"
  "duration (setGenericMetric e name v) = duration e"
  "error (setGenericMetric e name v) = error e"
  "totalScrapes (setGenericMetric e name v) = totalScrapes e"
  "dsn (setGenericMetric e name v) = dsn e"
  by (cases "map_of (metrics e) name";
      simp add: setGenericMetric_absent setGenericMetric_present)+

text \<open>What one row can do to the exporter.\<close>

lemma setMetrics_row_cases:
  "setMetrics_row L e row = e
   \<or> (\<exists>x v. setMetrics_row L e row = e\<lparr>commands := With_Set (commands e) x v\<rparr>)
   \<or> (\<exists>x v. setMetrics_row L e row = e\<lparr>connectionErrors := With_Set (connectionErrors e) x v\<rparr>)
   \<or> (\<exists>x v. setMetrics_row L e row = e\<lparr>innodbRows := With_Set (innodbRows e) x v\<rparr>)
   \<or> (\<exists>x v. setMetrics_row L e row
          = e\<lparr>performanceSchema := With_Set (performanceSchema e) x v\<rparr>)
   \<or> (\<exists>v. setMetrics_row L e row = setGenericMetric e (ToLower L (fst row)) v)"
proof (cases "ParseFloat L (snd row)")
  case None
  then show ?thesis by (simp add: setMetrics_row_def)
next
  case (Some v)
  obtain fam x where c: "classify (ToLower L (fst row)) = (fam, x)" by fastforce
  show ?thesis
  proof (cases fam)
    case Commands
    with Some c have "setMetrics_row L e row = e\<lparr>commands := With_Set (commands e) x v\<rparr>"
      by (simp add: setMetrics_row_def)
    then show ?thesis by blast
  next
    case ConnectionErrors
    with Some c have
      "setMetrics_row L e row = e\<lparr>connectionErrors := With_Set (connectionErrors e) x v\<rparr>"
      by (simp add: setMetrics_row_def)
    then show ?thesis by blast
  next
    case InnodbRows
    with Some c have "setMetrics_row L e row = e\<lparr>innodbRows := With_Set (innodbRows e) x v\<rparr>"
      by (simp add: setMetrics_row_def)
    then show ?thesis by blast
  next
    case PerformanceSchema
    with Some c have
      "setMetrics_row L e row = e\<lparr>performanceSchema := With_Set (performanceSchema e) x v\<rparr>"
      by (simp add: setMetrics_row_def)
    then show ?thesis by blast
  next
    case Generic
    with c have "x = ToLower L (fst row)" by (simp add: classify_Generic_name)
    with Some c Generic have
      "setMetrics_row L e row = setGenericMetric e (ToLower L (fst row)) v"
      by (simp add: setMetrics_row_def)
    then show ?thesis by blast
  qed
qed

text \<open>A row either leaves the map and the store alone or is a call of \<open>setGenericMetric\<close>.\<close>

lemma setMetrics_row_registry:
  "(metrics (setMetrics_row L e row) = metrics e \<and> heap (setMetrics_row L e row) = heap e)
   \<or> (\<exists>v. setMetrics_row L e row = setGenericMetric e (ToLower L (fst row)) v)"
  using setMetrics_row_cases [of L e row]
  by (elim disjE exE) auto

lemma setMetrics_row_process:
  "duration (setMetrics_row L e row) = duration e \<and> error (setMetrics_row L e row) = error e
   \<and> totalScrapes (setMetrics_row L e row) = totalScrapes e
   \<and> dsn (setMetrics_row L e row) = dsn e"
  using setMetrics_row_cases [of L e row]
  by (elim disjE exE) (simp_all add: setGenericMetric_fields)

lemma wfE_setMetrics_row:
  assumes "wfE e"
  shows "wfE (setMetrics_row L e row)"
  using setMetrics_row_registry [of L e row]
proof
  assume "metrics (setMetrics_row L e row) = metrics e
    \<and> heap (setMetrics_row L e row) = heap e"
  then have "wfE (setMetrics_row L e row) = wfE e" by (intro wfE_cong) simp_all
  with assms show ?thesis by simp
next
  assume "\<exists>v. setMetrics_row L e row = setGenericMetric e (ToLower L (fst row)) v"
  with assms show ?thesis by (auto simp: wfE_setGenericMetric)
qed

lemma setMetrics_row_keeps_handle:
  "map_of (metrics e) n = Some h \<Longrightarrow> map_of (metrics (setMetrics_row L e row)) n = Some h"
  using setMetrics_row_registry [of L e row]
  by (auto simp: setGenericMetric_keeps_handle)

lemma setMetrics_row_other_object:
  assumes "wfE e" and "map_of (metrics e) n = Some h" and "ToLower L (fst row) \<noteq> n"
  shows "heap (setMetrics_row L e row) ! h = heap e ! h"
proof -
  from assms(3) have ne: "n \<noteq> ToLower L (fst row)" by blast
  from setMetrics_row_registry [of L e row] show ?thesis
  proof
    assume "metrics (setMetrics_row L e row) = metrics e
      \<and> heap (setMetrics_row L e row) = heap e"
    then show ?thesis by simp
  next
    assume "\<exists>v. setMetrics_row L e row = setGenericMetric e (ToLower L (fst row)) v"
    then obtain v where "setMetrics_row L e row = setGenericMetric e (ToLower L (fst row)) v" ..
    with setGenericMetric_other_object [OF assms(1) ne assms(2)] show ?thesis by simp
  qed
qed

lemma setMetrics_Cons: "setMetrics L e (r # rs) = setMetrics L (setMetrics_row L e r) rs"
  by (simp add: setMetrics_def)

lemma setMetrics_Nil: "setMetrics L e [] = e"
  by (simp add: setMetrics_def)

lemma setMetrics_append: "setMetrics L e (rs @ rs') = setMetrics L (setMetrics L e rs) rs'"
  by (simp add: setMetrics_def)

lemma wfE_setMetrics: "wfE e \<Longrightarrow> wfE (setMetrics L e rs)"
  by (induction rs arbitrary: e) (simp_all add: setMetrics_Nil setMetrics_Cons wfE_setMetrics_row)

lemma setMetrics_keeps_handle:
  "map_of (metrics e) n = Some h \<Longrightarrow> map_of (metrics (setMetrics L e rs)) n = Some h"
  by (induction rs arbitrary: e)
    (simp_all add: setMetrics_Nil setMetrics_Cons setMetrics_row_keeps_handle)

lemma setMetrics_other_object:
  assumes "wfE e" and "map_of (metrics e) n = Some h"
    and "\<forall>row\<in>set rs. ToLower L (fst row) \<noteq> n"
  shows "heap (setMetrics L e rs) ! h = heap e ! h"
  using assms
proof (induction rs arbitrary: e)
  case Nil
  then show ?case by (simp add: setMetrics_Nil)
next
  case (Cons r rs)
  have "heap (setMetrics L (setMetrics_row L e r) rs) ! h = heap (setMetrics_row L e r) ! h"
    using Cons.prems
    by (intro Cons.IH) (simp_all add: wfE_setMetrics_row setMetrics_row_keeps_handle)
  also have "\<dots> = heap e ! h"
    using Cons.prems by (simp add: setMetrics_row_other_object)
  finally show ?case by (simp add: setMetrics_Cons)
qed

lemma setMetrics_process:
  "duration (setMetrics L e rs) = duration e \<and> error (setMetrics L e rs) = error e
   \<and> totalScrapes (setMetrics L e rs) = totalScrapes e \<and> dsn (setMetrics L e rs) = dsn e"
  by (induction rs arbitrary: e)
    (simp_all add: setMetrics_Nil setMetrics_Cons setMetrics_row_process)

text \<open>\<open>scrape\<close> writes the three process metrics and nothing else.\<close>

text \<open>The exits of \<open>scrape\<close>, one lemma for each.\<close>

lemma scrape_open_failed:
  "\<not> sqlOpen en \<Longrightarrow>
   scrape L e en = ([], setFailed L (e\<lparr>totalScrapes := totalScrapes e + 1\<rparr>) en)"
  by (simp add: scrape_def)

lemma scrape_status_failed:
  "sqlOpen en \<Longrightarrow> statusQuery en = None \<Longrightarrow>
   scrape L e en = ([], setFailed L (e\<lparr>totalScrapes := totalScrapes e + 1\<rparr>) en)"
  by (simp add: scrape_def)

lemma scrape_status_scan_failed:
  "sqlOpen en \<Longrightarrow> statusQuery en = Some rs \<Longrightarrow> scanStatus rs = (sent, False) \<Longrightarrow>
   scrape L e en = (sent, e\<lparr>totalScrapes := totalScrapes e + 1\<rparr>)"
  by (simp add: scrape_def)

lemma scrape_slave_failed:
  "sqlOpen en \<Longrightarrow> statusQuery en = Some rs \<Longrightarrow> scanStatus rs = (sent, True) \<Longrightarrow>
   slaveQuery en = None \<Longrightarrow>
   scrape L e en = (sent, setFailed L (e\<lparr>totalScrapes := totalScrapes e + 1\<rparr>) en)"
  by (simp add: scrape_def)

lemma scrape_columns_failed:
  "sqlOpen en \<Longrightarrow> statusQuery en = Some rs \<Longrightarrow> scanStatus rs = (sent, True) \<Longrightarrow>
   slaveQuery en = Some sl \<Longrightarrow> slaveColumns sl = None \<Longrightarrow>
   scrape L e en = (sent, setFailed L (e\<lparr>totalScrapes := totalScrapes e + 1\<rparr>) en)"
  by (simp add: scrape_def)

lemma scrape_slave_scan_failed:
  "sqlOpen en \<Longrightarrow> statusQuery en = Some rs \<Longrightarrow> scanStatus rs = (sent, True) \<Longrightarrow>
   slaveQuery en = Some sl \<Longrightarrow> slaveColumns sl = Some cols \<Longrightarrow>
   scanSlave (length cols) (replicate (length cols) []) (slaveRows sl) = None \<Longrightarrow>
   scrape L e en = (sent, setFailed L (e\<lparr>totalScrapes := totalScrapes e + 1\<rparr>) en)"
  by (simp add: scrape_def)

lemma scrape_succeeded:
  "sqlOpen en \<Longrightarrow> statusQuery en = Some rs \<Longrightarrow> scanStatus rs = (sent, True) \<Longrightarrow>
   slaveQuery en = Some sl \<Longrightarrow> slaveColumns sl = Some cols \<Longrightarrow>
   scanSlave (length cols) (replicate (length cols) []) (slaveRows sl) = Some slaveData \<Longrightarrow>
   scrape L e en = (sent @ zip cols (map parseStatus slaveData),
     e\<lparr>totalScrapes := totalScrapes e + 1, error := 0,
       duration := secondsOf L (now1 en - now0 en)\<rparr>)"
  by (simp add: scrape_def)

lemma scrape_state:
  "\<exists>er du. snd (scrape L e en)
      = e\<lparr>totalScrapes := totalScrapes e + 1, error := er, duration := du\<rparr>"
proof -
  let ?e = "e\<lparr>totalScrapes := totalScrapes e + 1\<rparr>"
  let ?P = "\<lambda>s. \<exists>er du. s = e\<lparr>totalScrapes := totalScrapes e + 1, error := er, duration := du\<rparr>"
  have a: "?P ?e"
    by (rule exI [of _ "error e"], rule exI [of _ "duration e"]) simp
  have b: "?P (setFailed L ?e en)"
    by (rule exI [of _ 1], rule exI [of _ "secondsOf L (now1 en - now0 en)"])
      (simp add: setFailed_def)
  have c: "?P (e\<lparr>totalScrapes := totalScrapes e + 1, error := 0,
       duration := secondsOf L (now1 en - now0 en)\<rparr>)"
    by blast
  show ?thesis
  proof (cases "sqlOpen en")
    case False
    with b show ?thesis by (simp add: scrape_open_failed)
  next
    case op: True
    show ?thesis
    proof (cases "statusQuery en")
      case None
      with op b show ?thesis by (simp add: scrape_status_failed)
    next
      case (Some rs)
      obtain sent fin where sc: "scanStatus rs = (sent, fin)" by fastforce
      show ?thesis
      proof (cases fin)
        case False
        with op Some sc a show ?thesis by (simp add: scrape_status_scan_failed)
      next
        case True
        from sc True have sc': "scanStatus rs = (sent, True)" by simp
        note st = op Some sc'
        show ?thesis
        proof (cases "slaveQuery en")
          case None
          with b show ?thesis by (simp add: scrape_slave_failed [OF st])
        next
          case sl: (Some sl)
          show ?thesis
          proof (cases "slaveColumns sl")
            case None
            with b show ?thesis by (simp add: scrape_columns_failed [OF st sl])
          next
            case cols: (Some cols)
            show ?thesis
            proof (cases "scanSlave (length cols) (replicate (length cols) []) (slaveRows sl)")
              case None
              with b show ?thesis by (simp add: scrape_slave_scan_failed [OF st sl cols])
            next
              case (Some slaveData)
              with c show ?thesis by (simp add: scrape_succeeded [OF st sl cols])
            qed
          qed
        qed
      qed
    qed
  qed
qed

lemma scrape_registry:
  "metrics (snd (scrape L e en)) = metrics e"
  "heap (snd (scrape L e en)) = heap e"
  "commands (snd (scrape L e en)) = commands e"
  "connectionErrors (snd (scrape L e en)) = connectionErrors e"
  "innodbRows (snd (scrape L e en)) = innodbRows e"
  "performanceSchema (snd (scrape L e en)) = performanceSchema e"
  "dsn (snd (scrape L e en)) = dsn e"
proof -
  from scrape_state [of L e en] obtain er du where
    s: "snd (scrape L e en)
      = e\<lparr>totalScrapes := totalScrapes e + 1, error := er, duration := du\<rparr>"
    by blast
  show "metrics (snd (scrape L e en)) = metrics e" by (simp add: s)
  show "heap (snd (scrape L e en)) = heap e" by (simp add: s)
  show "commands (snd (scrape L e en)) = commands e" by (simp add: s)
  show "connectionErrors (snd (scrape L e en)) = connectionErrors e" by (simp add: s)
  show "innodbRows (snd (scrape L e en)) = innodbRows e" by (simp add: s)
  show "performanceSchema (snd (scrape L e en)) = performanceSchema e" by (simp add: s)
  show "dsn (snd (scrape L e en)) = dsn e" by (simp add: s)
qed

lemma wfE_scrape: "wfE (snd (scrape L e en)) = wfE e"
  by (rule wfE_cong) (simp_all add: scrape_registry)

lemma fst_Exporter_Collect: "fst (Exporter_Collect L e en) = setMetrics L (snd (scrape L e en)) (fst (scrape L e en))"
  by (simp add: Exporter_Collect_def Let_def split: prod.splits)

lemma snd_Exporter_Collect: "snd (Exporter_Collect L e en) = collectMetrics (fst (Exporter_Collect L e en))"
  by (simp add: Exporter_Collect_def Let_def split: prod.splits)

lemma wfE_Exporter_Collect: "wfE e \<Longrightarrow> wfE (fst (Exporter_Collect L e en))"
  by (simp add: fst_Exporter_Collect wfE_setMetrics wfE_scrape)

lemma Exporter_Collect_keeps_handle:
  "map_of (metrics e) n = Some h \<Longrightarrow> map_of (metrics (fst (Exporter_Collect L e en))) n = Some h"
  by (simp add: fst_Exporter_Collect setMetrics_keeps_handle scrape_registry)

lemma Exporter_Collect_other_object:
  assumes "wfE e" and "map_of (metrics e) n = Some h"
    and "\<forall>row\<in>set (fst (scrape L e en)). ToLower L (fst row) \<noteq> n"
  shows "heap (fst (Exporter_Collect L e en)) ! h = heap e ! h"
proof -
  have "heap (fst (Exporter_Collect L e en)) ! h = heap (snd (scrape L e en)) ! h"
    unfolding fst_Exporter_Collect using assms
    by (intro setMetrics_other_object) (simp_all add: wfE_scrape scrape_registry)
  then show ?thesis by (simp add: scrape_registry)
qed

lemma Exporter_Collects_Nil: "Exporter_Collects L e [] = e"
  by (simp add: Exporter_Collects_def)

lemma Exporter_Collects_Cons: "Exporter_Collects L e (en # ens) = Exporter_Collects L (fst (Exporter_Collect L e en)) ens"
  by (simp add: Exporter_Collects_def)

lemma wfE_Exporter_Collects: "wfE e \<Longrightarrow> wfE (Exporter_Collects L e ens)"
  by (induction ens arbitrary: e) (simp_all add: Exporter_Collects_Nil Exporter_Collects_Cons wfE_Exporter_Collect)

lemma Exporter_Collects_keeps_handle:
  "map_of (metrics e) n = Some h \<Longrightarrow> map_of (metrics (Exporter_Collects L e ens)) n = Some h"
  by (induction ens arbitrary: e)
    (simp_all add: Exporter_Collects_Nil Exporter_Collects_Cons Exporter_Collect_keeps_handle)

lemma Exporter_Collects_other_object:
  assumes "wfE e" and "map_of (metrics e) n = Some h"
    and "\<forall>en\<in>set ens. \<forall>e'. \<forall>row\<in>set (fst (scrape L e' en)). ToLower L (fst row) \<noteq> n"
  shows "heap (Exporter_Collects L e ens) ! h = heap e ! h"
  using assms
proof (induction ens arbitrary: e)
  case Nil
  then show ?case by (simp add: Exporter_Collects_Nil)
next
  case (Cons en ens)
  have "heap (Exporter_Collects L (fst (Exporter_Collect L e en)) ens) ! h = heap (fst (Exporter_Collect L e en)) ! h"
    using Cons.prems by (intro Cons.IH) (simp_all add: wfE_Exporter_Collect Exporter_Collect_keeps_handle)
  also have "\<dots> = heap e ! h"
  proof (rule Exporter_Collect_other_object)
    show "\<forall>row\<in>set (fst (scrape L e en)). ToLower L (fst row) \<noteq> n"
      using Cons.prems(3) by simp
  qed (use Cons.prems in simp_all)
  finally show ?case by (simp add: Exporter_Collects_Cons)
qed

lemma collectMetrics_member:
  "map_of (metrics e) n = Some h \<Longrightarrow> heap e ! h \<in> set (collectMetrics e)"
  by (force simp: collectMetrics_def dest: map_of_SomeD)

text \<open>
  C3. \<open>setGenericMetric\<close> looks the name up or creates its entry. The first call for a
  name allocates one new object and enters it; a call for a name that has an entry leaves
  the map and the size of the store as they are. In both cases the entry's object holds
  the value passed afterwards, a second call for the same name keeps the handle and the
  map, allocates nothing and stores its own value in the same object, and no later run of
  \<open>Collect\<close> calls changes the handle of the name.
\<close>

theorem setGenericMetric_idempotent:
  assumes "wfE e"
  shows "\<exists>h. map_of (metrics (setGenericMetric e name v)) name = Some h
    \<and> h < length (heap (setGenericMetric e name v))
    \<and> uval (heap (setGenericMetric e name v) ! h) = v
    \<and> (map_of (metrics e) name = None \<longrightarrow>
          h = length (heap e)
          \<and> length (heap (setGenericMetric e name v)) = Suc (length (heap e)))
    \<and> (\<forall>h0. map_of (metrics e) name = Some h0 \<longrightarrow>
          h = h0 \<and> metrics (setGenericMetric e name v) = metrics e
          \<and> length (heap (setGenericMetric e name v)) = length (heap e))
    \<and> map_of (metrics (setGenericMetric (setGenericMetric e name v) name w)) name = Some h
    \<and> metrics (setGenericMetric (setGenericMetric e name v) name w)
        = metrics (setGenericMetric e name v)
    \<and> length (heap (setGenericMetric (setGenericMetric e name v) name w))
        = length (heap (setGenericMetric e name v))
    \<and> uval (heap (setGenericMetric (setGenericMetric e name v) name w) ! h) = w
    \<and> (\<forall>L ens. map_of (metrics (Exporter_Collects L
          (setGenericMetric (setGenericMetric e name v) name w) ens)) name = Some h)"
proof -
  let ?e1 = "setGenericMetric e name v"
  let ?e2 = "setGenericMetric ?e1 name w"
  obtain h where h: "map_of (metrics ?e1) name = Some h"
    using setGenericMetric_lookup [of e name v] by blast
  have wf1: "wfE ?e1" using assms by (rule wfE_setGenericMetric)
  from setGenericMetric_stores [OF assms h]
  have v: "uval (heap ?e1 ! h) = v" and lt: "h < length (heap ?e1)"
    by simp_all
  have first: "h = length (heap e) \<and> length (heap ?e1) = Suc (length (heap e))"
    if "map_of (metrics e) name = None"
    using h that by (simp add: setGenericMetric_absent map_add_def)
  have later: "h = h0 \<and> metrics ?e1 = metrics e \<and> length (heap ?e1) = length (heap e)"
    if "map_of (metrics e) name = Some h0" for h0
    using h that by (simp add: setGenericMetric_present)
  have e2: "?e2 = ?e1\<lparr>heap := (heap ?e1)[h := (heap ?e1 ! h)\<lparr>uval := w\<rparr>]\<rparr>"
    using h by (rule setGenericMetric_present)
  have h2: "map_of (metrics ?e2) name = Some h"
    using h by (rule setGenericMetric_keeps_handle)
  have m2: "metrics ?e2 = metrics ?e1" by (subst e2) simp
  have l2: "length (heap ?e2) = length (heap ?e1)" by (subst e2) simp
  have w: "uval (heap ?e2 ! h) = w" using lt by (subst e2) simp
  have life: "map_of (metrics (Exporter_Collects L ?e2 ens)) name = Some h" for L ens
    using h2 by (rule Exporter_Collects_keeps_handle)
  show ?thesis
  proof (intro exI [of _ h] conjI)
    show "map_of (metrics e) name = None \<longrightarrow>
        h = length (heap e) \<and> length (heap ?e1) = Suc (length (heap e))"
      using first by blast
    show "\<forall>h0. map_of (metrics e) name = Some h0 \<longrightarrow>
        h = h0 \<and> metrics ?e1 = metrics e \<and> length (heap ?e1) = length (heap e)"
      using later by blast
    show "\<forall>L ens. map_of (metrics (Exporter_Collects L ?e2 ens)) name = Some h"
      using life by blast
  qed (rule h lt v h2 m2 l2 w)+
qed

end
